theory Spec2Isabelle
  imports Complex_Main "HOL-Library.AList" "HOL-Library.Multiset"
begin

section \<open>Values of the dataset module\<close>

text \<open>
  The module \<^verbatim>\<open>neuralmonkey/dataset.py\<close> raises plain \<^verbatim>\<open>Exception\<close> objects that
  carry a message, \<^verbatim>\<open>KeyError\<close> from dictionary indexing and \<^verbatim>\<open>TypeError\<close> when
  \<^verbatim>\<open>None\<close> is iterated. A file that cannot be opened or decoded is an \<^verbatim>\<open>IOError\<close>.
\<close>

datatype error =
    Exception string
  | KeyError string
  | TypeError
  | IOError string

text \<open>
  A value stored in the dictionary \<^verbatim>\<open>_series\<close>: a list (what the loader builds), a numpy
  array (its rows), a tuple (what \<^verbatim>\<open>shuffle\<close> stores) or \<^verbatim>\<open>None\<close> (the placeholder of
  the lazy dataset).
\<close>

datatype 'a series_val =
    ListV "'a list"
  | ArrayV "'a list"
  | TupleV "'a list"
  | NoneV

text \<open>\<^verbatim>\<open>isinstance(v, list) or isinstance(v, np.ndarray)\<close>\<close>

fun is_list_or_array :: "'a series_val \<Rightarrow> bool" where
  "is_list_or_array (ListV xs) = True"
| "is_list_or_array (ArrayV xs) = True"
| "is_list_or_array (TupleV xs) = False"
| "is_list_or_array NoneV = False"

text \<open>\<^verbatim>\<open>list(v)\<close>: the items of an iterable value, a \<^verbatim>\<open>TypeError\<close> on \<^verbatim>\<open>None\<close>.\<close>

fun py_list :: "'a series_val \<Rightarrow> error + 'a list" where
  "py_list (ListV xs) = Inr xs"
| "py_list (ArrayV xs) = Inr xs"
| "py_list (TupleV xs) = Inr xs"
| "py_list NoneV = Inl TypeError"

text \<open>
  A Python dictionary is an association list in the dictionary's iteration order; a
  store to a present key keeps its position (\<^const>\<open>AList.update\<close>).
\<close>

type_synonym ('k, 'v) dict = "('k \<times> 'v) list"

record 'a dataset =
  name :: string
  series :: "(string, 'a series_val) dict"
  series_outputs :: "(string, string) dict"

subsection \<open>Formatting\<close>

text \<open>\<^verbatim>\<open>"{}".format(n)\<close> for a length: the decimal digits of \<open>n\<close>.\<close>

definition digit_char :: "nat \<Rightarrow> char" where
  "digit_char d = ''0123456789'' ! d"

fun str_nat :: "nat \<Rightarrow> string" where
  "str_nat n = (if n < 10 then [digit_char n] else str_nat (n div 10) @ [digit_char (n mod 10)])"

declare str_nat.simps [simp del]

text \<open>\<^verbatim>\<open>sep.join(strs)\<close>\<close>

fun join :: "string \<Rightarrow> string list \<Rightarrow> string" where
  "join sep [] = []"
| "join sep [x] = x"
| "join sep (x # y # r) = x @ sep @ join sep (y # r)"

section \<open>The eager dataset\<close>

text \<open>
  \<^verbatim>\<open>_check_series_lengths\<close>: the lengths of the list and array values only; when they are
  not all equal, the report is built from every series of the dictionary, in order, and
  \<^verbatim>\<open>len(list(...))\<close> of a \<^verbatim>\<open>None\<close> raises before the report is complete.
\<close>

fun err_str :: "(string, 'a series_val) dict \<Rightarrow> error + string list" where
  "err_str [] = Inr []"
| "err_str ((s, v) # r) =
     (case py_list v of
        Inl e \<Rightarrow> Inl e
      | Inr xs \<Rightarrow>
          (case err_str r of
             Inl e \<Rightarrow> Inl e
           | Inr strs \<Rightarrow> Inr ((s @ '': '' @ str_nat (length xs)) # strs)))"

definition series_lengths :: "(string, 'a series_val) dict \<Rightarrow> nat list" where
  "series_lengths sr =
     map (\<lambda>v. case py_list v of Inr xs \<Rightarrow> length xs | Inl e \<Rightarrow> 0)
         (filter is_list_or_array (map snd sr))"

definition length_mismatch :: "string list \<Rightarrow> error" where
  "length_mismatch strs =
     Exception (''Lengths of data series must be equal. Instead: '' @ join '', '' strs)"

definition check_series_lengths :: "(string, 'a series_val) dict \<Rightarrow> error + unit" where
  "check_series_lengths sr =
     (if length (remdups (series_lengths sr)) > 1
      then (case err_str sr of
              Inl e \<Rightarrow> Inl e
            | Inr strs \<Rightarrow> Inl (length_mismatch strs))
      else Inr ())"

text \<open>\<^verbatim>\<open>Dataset.__init__\<close>: store the three fields, then check the lengths.\<close>

definition Dataset_init ::
  "string \<Rightarrow> (string, 'a series_val) dict \<Rightarrow> (string, string) dict \<Rightarrow> error + 'a dataset" where
  "Dataset_init nm sr outs =
     (case check_series_lengths sr of
        Inl e \<Rightarrow> Inl e
      | Inr u \<Rightarrow> Inr \<lparr>name = nm, series = sr, series_outputs = outs\<rparr>)"

text \<open>\<^verbatim>\<open>Dataset.__len__\<close>: 0 without series, else the length of the first series.\<close>

definition Dataset_len :: "'a dataset \<Rightarrow> error + nat" where
  "Dataset_len ds =
     (case series ds of
        [] \<Rightarrow> Inr 0
      | (k, v) # r \<Rightarrow> (case py_list v of Inl e \<Rightarrow> Inl e | Inr xs \<Rightarrow> Inr (length xs)))"

definition has_series :: "'a dataset \<Rightarrow> string \<Rightarrow> bool" where
  "has_series ds n = (map_of (series ds) n \<noteq> None)"

text \<open>
  \<^verbatim>\<open>Dataset.get_series\<close>: \<^verbatim>\<open>dict.get\<close> gives \<^verbatim>\<open>None\<close> for an absent name when
  \<^verbatim>\<open>allow_none\<close> is set, indexing raises \<^verbatim>\<open>KeyError\<close> otherwise.
\<close>

definition get_series :: "'a dataset \<Rightarrow> string \<Rightarrow> bool \<Rightarrow> error + 'a series_val" where
  "get_series ds n allow_none =
     (case map_of (series ds) n of
        None \<Rightarrow> (if allow_none then Inr NoneV else Inl (KeyError n))
      | Some v \<Rightarrow> Inr v)"

subsection \<open>Batching one series\<close>

text \<open>
  The loop of \<^verbatim>\<open>batch_serie\<close> over the items of the series: \<open>buf\<close> is the buffer, the
  result is the list of the buffers yielded. The batch size is a Python integer, compared
  with the buffer's length after each append. The method itself, which both classes
  have, follows the lazy dataset below.
\<close>

fun batch_loop :: "int \<Rightarrow> 'a list \<Rightarrow> 'a list \<Rightarrow> 'a list list" where
  "batch_loop batch_size buf [] = (if buf \<noteq> [] then [buf] else [])"
| "batch_loop batch_size buf (item # rest) =
     (let buf' = buf @ [item]
      in if int (length buf') \<ge> batch_size
         then buf' # batch_loop batch_size [] rest
         else batch_loop batch_size buf' rest)"

subsection \<open>Shuffling\<close>

text \<open>
  \<^verbatim>\<open>zip(*xss)\<close>: the rows of the columns \<open>xss\<close>, as many as the shortest column has
  items, and none when there is no column.
\<close>

fun min_length :: "'a list list \<Rightarrow> nat" where
  "min_length [] = 0"
| "min_length [xs] = length xs"
| "min_length (xs # ys # r) = min (length xs) (min_length (ys # r))"

definition zip_star :: "'a list list \<Rightarrow> 'a list list" where
  "zip_star xss = map (\<lambda>i. map (\<lambda>xs. xs ! i) xss) [0..<min_length xss]"

text \<open>
  \<^verbatim>\<open>random.shuffle(x)\<close> of the standard library exchanges, for \<open>i\<close> from
  \<open>len(x) - 1\<close> down to 1, the items at \<open>i\<close> and at \<open>j = randbelow(i + 1)\<close>. The
  random source is the argument \<open>rand\<close>: the call \<^verbatim>\<open>randbelow(n)\<close> returns
  \<open>rand n mod n\<close>, so that every source gives draws in range.
\<close>

fun shuffle_loop :: "(nat \<Rightarrow> nat) \<Rightarrow> nat \<Rightarrow> 'a list \<Rightarrow> 'a list" where
  "shuffle_loop rand 0 x = x"
| "shuffle_loop rand (Suc i) x =
     (let j = rand (Suc i + 1) mod (Suc i + 1)
      in shuffle_loop rand i (x[Suc i := x ! j, j := x ! Suc i]))"

definition random_shuffle :: "(nat \<Rightarrow> nat) \<Rightarrow> 'a list \<Rightarrow> 'a list" where
  "random_shuffle rand x = shuffle_loop rand (length x - 1) x"

text \<open>The list comprehension \<^verbatim>\<open>[self._series[k] for k in keys]\<close> given to \<^verbatim>\<open>zip\<close>,
  which iterates every value.\<close>

fun py_lists :: "'a series_val list \<Rightarrow> error + 'a list list" where
  "py_lists [] = Inr []"
| "py_lists (v # vs) =
     (case py_list v of
        Inl e \<Rightarrow> Inl e
      | Inr xs \<Rightarrow> (case py_lists vs of Inl e \<Rightarrow> Inl e | Inr xss \<Rightarrow> Inr (xs # xss)))"

text \<open>
  \<^verbatim>\<open>Dataset.shuffle\<close>: the rows of the series are shuffled, and every key that has a
  column of the shuffled rows is given that column, a tuple. The name and the outputs
  are not touched.
\<close>

definition shuffle :: "(nat \<Rightarrow> nat) \<Rightarrow> 'a dataset \<Rightarrow> error + 'a dataset" where
  "shuffle rand ds =
     (let keys = map fst (series ds)
      in case py_lists (map snd (series ds)) of
           Inl e \<Rightarrow> Inl e
         | Inr cols \<Rightarrow>
             (let zipped = random_shuffle rand (zip_star cols)
              in Inr (ds\<lparr>series :=
                   AList.updates keys (map TupleV (zip_star zipped)) (series ds)\<rparr>)))"

section \<open>Files and series\<close>

text \<open>
  A file as the module sees it: the MIME type \<^verbatim>\<open>magic.from_file\<close> reports, the items
  the text reader yields, and the records \<^verbatim>\<open>np.load\<close> decodes (\<open>None\<close> when the content
  is not an array file and \<^verbatim>\<open>np.load\<close> raises). The file system maps a path to its file.
\<close>

record 'a data_file =
  mime_type :: string
  text_items :: "'a list"
  array_records :: "'a list option"

type_synonym 'a file_system = "string \<Rightarrow> 'a data_file option"

text \<open>
  Modelled from the spec: \<^verbatim>\<open>PlainTextFileReader(path).read()\<close>, the reader of
  \<^verbatim>\<open>neuralmonkey/readers/plain_text_reader.py\<close>: a finite sequence of line-based items,
  one per line of the file, in the order of the file.
\<close>

definition reader_read :: "'a data_file \<Rightarrow> 'a list" where
  "reader_read f = text_items f"

definition np_load :: "string \<Rightarrow> 'a data_file \<Rightarrow> error + 'a list" where
  "np_load path f =
     (case array_records f of
        None \<Rightarrow> Inl (IOError path)
      | Some recs \<Rightarrow> Inr recs)"

text \<open>
  \<^verbatim>\<open>create_dataset_series\<close> has a \<^verbatim>\<open>yield\<close> in its body, so a call runs nothing and
  returns a generator: the suspended body with its two arguments.
\<close>

record 'a generator =
  gen_path :: string
  gen_preprocess :: "'a \<Rightarrow> 'a"

definition create_dataset_series :: "string \<Rightarrow> ('a \<Rightarrow> 'a) \<Rightarrow> 'a generator" where
  "create_dataset_series path preprocess_fn = \<lparr>gen_path = path, gen_preprocess = preprocess_fn\<rparr>"

text \<open>
  \<^verbatim>\<open>list(g)\<close>: the body of \<^verbatim>\<open>create_dataset_series\<close> run to its end against the file
  system, and the items it yields. In the branch of an array file the body evaluates
  \<^verbatim>\<open>np.load(path)\<close> and executes \<^verbatim>\<open>return\<close>, which ends the generator: nothing is
  yielded.
\<close>

definition unsupported :: "string \<Rightarrow> string \<Rightarrow> error" where
  "unsupported file_type path =
     Exception (''Unsupported data type: '' @ file_type @ '', file '' @ path)"

definition run_generator :: "'a file_system \<Rightarrow> 'a generator \<Rightarrow> error + 'a list" where
  "run_generator fs g =
     (case fs (gen_path g) of
        None \<Rightarrow> Inl (IOError (gen_path g))
      | Some f \<Rightarrow>
          (let file_type = mime_type f
           in if take 5 file_type = ''text/''
              then Inr (map (gen_preprocess g) (reader_read f))
              else if file_type = ''application/octet-stream''
              then (case np_load (gen_path g) f of
                      Inl e \<Rightarrow> Inl e
                    | Inr recs \<Rightarrow> Inr [])
              else Inl (unsupported file_type (gen_path g))))"

section \<open>The lazy dataset\<close>

text \<open>\<^verbatim>\<open>LazyDataset\<close> extends \<^verbatim>\<open>Dataset\<close> by the paths and the preprocessor.\<close>

record 'a lazy_dataset = "'a dataset" +
  series_paths :: "(string, string) dict"
  preprocess :: "'a \<Rightarrow> 'a"

text \<open>\<^verbatim>\<open>LazyDataset.__init__\<close>: the constructor of \<^verbatim>\<open>Dataset\<close> is run on a dictionary that
  maps every series to \<^verbatim>\<open>None\<close>.\<close>

definition LazyDataset_init ::
  "string \<Rightarrow> (string, string) dict \<Rightarrow> (string, string) dict \<Rightarrow> ('a \<Rightarrow> 'a)
   \<Rightarrow> error + 'a lazy_dataset" where
  "LazyDataset_init nm paths outs preprocess_fn =
     (case Dataset_init nm (map (\<lambda>(s, p). (s, NoneV)) paths) outs of
        Inl e \<Rightarrow> Inl e
      | Inr d \<Rightarrow>
          Inr \<lparr>name = name d, series = series d, series_outputs = series_outputs d,
               series_paths = paths, preprocess = preprocess_fn\<rparr>)"

text \<open>\<^verbatim>\<open>LazyDataset.__len__\<close> raises, whatever the dataset.\<close>

definition size_unknown :: error where
  "size_unknown = Exception ''Lazy dataset does not know its size''"

definition LazyDataset_len :: "'a lazy_dataset \<Rightarrow> error + nat" where
  "LazyDataset_len ld = Inl size_unknown"

definition LazyDataset_has_series :: "'a lazy_dataset \<Rightarrow> string \<Rightarrow> bool" where
  "LazyDataset_has_series ld n = (map_of (series_paths ld) n \<noteq> None)"

text \<open>
  \<^verbatim>\<open>LazyDataset.get_series\<close>: \<^verbatim>\<open>None\<close> for an absent name under \<^verbatim>\<open>allow_none\<close>, a
  \<^verbatim>\<open>KeyError\<close> for it otherwise, and else a new generator on the path of the series. The
  dataset is not modified.
\<close>

definition LazyDataset_get_series ::
  "'a lazy_dataset \<Rightarrow> string \<Rightarrow> bool \<Rightarrow> error + 'a generator option" where
  "LazyDataset_get_series ld n allow_none =
     (if allow_none \<and> map_of (series_paths ld) n = None then Inr None
      else (case map_of (series_paths ld) n of
              None \<Rightarrow> Inl (KeyError n)
            | Some path \<Rightarrow> Inr (Some (create_dataset_series path (preprocess ld)))))"

text \<open>\<^verbatim>\<open>LazyDataset.shuffle\<close>: the body is \<^verbatim>\<open>pass\<close>.\<close>

definition LazyDataset_shuffle :: "'a lazy_dataset \<Rightarrow> 'a lazy_dataset" where
  "LazyDataset_shuffle ld = ld"

section \<open>Methods of both classes\<close>

text \<open>An object of the class \<^verbatim>\<open>Dataset\<close> is an eager dataset or, by inheritance, a lazy
  one.\<close>

datatype 'a loaded = Eager "'a dataset" | Lazy "'a lazy_dataset"

text \<open>
  What \<^verbatim>\<open>self.get_series(name, allow_none)\<close> returns: the stored value of an eager
  dataset (\<^verbatim>\<open>None\<close> included), a generator of a lazy one. The call is dispatched on the
  class of \<open>self\<close>.
\<close>

datatype 'a iterable = Stored "'a series_val" | Generator "'a generator"

fun self_get_series :: "'a loaded \<Rightarrow> string \<Rightarrow> bool \<Rightarrow> error + 'a iterable" where
  "self_get_series (Eager ds) n allow_none =
     (case get_series ds n allow_none of
        Inl e \<Rightarrow> Inl e
      | Inr v \<Rightarrow> Inr (Stored v))"
| "self_get_series (Lazy ld) n allow_none =
     (case LazyDataset_get_series ld n allow_none of
        Inl e \<Rightarrow> Inl e
      | Inr None \<Rightarrow> Inr (Stored NoneV)
      | Inr (Some g) \<Rightarrow> Inr (Generator g))"

text \<open>The items a \<^verbatim>\<open>for\<close> loop draws from such a value until it is exhausted.\<close>

fun py_iter :: "'a file_system \<Rightarrow> 'a iterable \<Rightarrow> error + 'a list" where
  "py_iter fs (Stored v) = py_list v"
| "py_iter fs (Generator g) = run_generator fs g"

text \<open>
  \<^verbatim>\<open>Dataset.batch_serie\<close>, which \<^verbatim>\<open>LazyDataset\<close> inherits: the loop runs over
  \<^verbatim>\<open>self.get_series(serie_name)\<close>, read from memory or from the file of the series.
\<close>

definition batch_serie ::
  "'a file_system \<Rightarrow> 'a loaded \<Rightarrow> string \<Rightarrow> int \<Rightarrow> error + 'a list list" where
  "batch_serie fs self serie_name batch_size =
     (case self_get_series self serie_name False of
        Inl e \<Rightarrow> Inl e
      | Inr it \<Rightarrow>
          (case py_iter fs it of
             Inl e \<Rightarrow> Inl e
           | Inr xs \<Rightarrow> Inr (batch_loop batch_size [] xs)))"

section \<open>Generator objects\<close>

text \<open>
  A generator is an object with a state of its own. It is created suspended, before its
  body has run. The first \<^verbatim>\<open>next\<close> runs the body of \<^verbatim>\<open>create_dataset_series\<close> from its
  start: for a text file it creates the reader, a local variable of the generator, and the
  generator then holds what the reader has not yet given; every \<^verbatim>\<open>next\<close> moves this
  cursor by one item. A generator that has returned or raised is finished.
\<close>

datatype 'a gen_state =
    Suspended "'a generator"
  | Reading "'a list" "'a \<Rightarrow> 'a"
  | Finished

text \<open>One turn of the loop \<^verbatim>\<open>for line in reader.read(): yield preprocess(line)\<close>.\<close>

fun read_step :: "'a list \<Rightarrow> ('a \<Rightarrow> 'a) \<Rightarrow> (error + 'a option) \<times> 'a gen_state" where
  "read_step [] preprocess_fn = (Inr None, Finished)"
| "read_step (line # rest) preprocess_fn = (Inr (Some (preprocess_fn line)), Reading rest preprocess_fn)"

text \<open>
  \<^verbatim>\<open>next(g)\<close> on the state of the generator: the item yielded, \<open>None\<close> for
  \<^verbatim>\<open>StopIteration\<close>, or the exception of the body; and the state after the call.
\<close>

fun gen_step :: "'a file_system \<Rightarrow> 'a gen_state \<Rightarrow> (error + 'a option) \<times> 'a gen_state" where
  "gen_step fs (Suspended g) =
     (case fs (gen_path g) of
        None \<Rightarrow> (Inl (IOError (gen_path g)), Finished)
      | Some f \<Rightarrow>
          (let file_type = mime_type f
           in if take 5 file_type = ''text/''
              then read_step (reader_read f) (gen_preprocess g)
              else if file_type = ''application/octet-stream''
              then (case np_load (gen_path g) f of
                      Inl e \<Rightarrow> (Inl e, Finished)
                    | Inr recs \<Rightarrow> (Inr None, Finished))
              else (Inl (unsupported file_type (gen_path g)), Finished)))"
| "gen_step fs (Reading remaining preprocess_fn) = read_step remaining preprocess_fn"
| "gen_step fs Finished = (Inr None, Finished)"

text \<open>The items a generator in a given state can still yield, at most.\<close>

fun gen_weight :: "'a file_system \<Rightarrow> 'a gen_state \<Rightarrow> nat" where
  "gen_weight fs (Suspended g) =
     (case fs (gen_path g) of None \<Rightarrow> 0 | Some f \<Rightarrow> Suc (length (reader_read f)))"
| "gen_weight fs (Reading remaining preprocess_fn) = length remaining"
| "gen_weight fs Finished = 0"

text \<open>\<^verbatim>\<open>list(g)\<close>: \<^verbatim>\<open>next\<close> is called until the generator stops or raises.\<close>

function gen_drain :: "'a file_system \<Rightarrow> 'a gen_state \<Rightarrow> (error + 'a list) \<times> 'a gen_state" where
  "gen_drain fs st =
     (case gen_step fs st of
        (Inl e, st') \<Rightarrow> (Inl e, st')
      | (Inr None, st') \<Rightarrow> (Inr [], st')
      | (Inr (Some x), st') \<Rightarrow>
          (case gen_drain fs st' of
             (Inl e, st'') \<Rightarrow> (Inl e, st'')
           | (Inr xs, st'') \<Rightarrow> (Inr (x # xs), st'')))"
  by pat_completeness auto
termination
proof (relation "measure (\<lambda>(fs, st). gen_weight fs st)")
  show "wf (measure (\<lambda>(fs, st). gen_weight fs st))" by simp
next
  fix fs :: "'a file_system" and st :: "'a gen_state" and r st' b x
  assume step: "(r, st') = gen_step fs st" and "r = Inr b" and "b = Some x"
  then have yield: "gen_step fs st = (Inr (Some x), st')" by simp
  have "gen_weight fs st' < gen_weight fs st"
  proof (cases st)
    case (Suspended g)
    with yield show ?thesis
      by (cases "reader_read (the (fs (gen_path g)))")
         (auto simp: Let_def split: option.splits if_splits sum.splits)
  next
    case (Reading remaining preprocess_fn)
    with yield show ?thesis by (cases remaining) auto
  next
    case Finished
    with yield show ?thesis by simp
  qed
  then show "((fs, st'), (fs, st)) \<in> measure (\<lambda>(fs, st). gen_weight fs st)" by simp
qed

declare gen_drain.simps [simp del]

text \<open>At most \<open>m\<close> calls of \<^verbatim>\<open>next\<close>, by a consumer that then abandons the generator.\<close>

fun gen_take :: "nat \<Rightarrow> 'a file_system \<Rightarrow> 'a gen_state \<Rightarrow> 'a list \<times> 'a gen_state" where
  "gen_take 0 fs st = ([], st)"
| "gen_take (Suc m) fs st =
     (case gen_step fs st of
        (Inr (Some x), st') \<Rightarrow> (case gen_take m fs st' of (xs, st'') \<Rightarrow> (x # xs, st''))
      | (r, st') \<Rightarrow> ([], st'))"

text \<open>
  The generator objects live in a heap, a list of their states; the address of an object
  is its index. A reference that is not the address of a generator cannot be iterated.
\<close>

type_synonym 'a heap = "'a gen_state list"

definition heap_list :: "'a file_system \<Rightarrow> 'a heap \<Rightarrow> nat \<Rightarrow> (error + 'a list) \<times> 'a heap" where
  "heap_list fs h a =
     (if a < length h
      then (case gen_drain fs (h ! a) of (r, st') \<Rightarrow> (r, h[a := st']))
      else (Inl TypeError, h))"

definition heap_take :: "nat \<Rightarrow> 'a file_system \<Rightarrow> 'a heap \<Rightarrow> nat \<Rightarrow> 'a list \<times> 'a heap" where
  "heap_take m fs h a =
     (if a < length h
      then (case gen_take m fs (h ! a) of (xs, st') \<Rightarrow> (xs, h[a := st']))
      else ([], h))"

text \<open>
  The call \<^verbatim>\<open>self.get_series(name, allow_none)\<close> of a lazy dataset, with the object it
  creates: the call of \<^verbatim>\<open>create_dataset_series\<close> puts a new suspended generator on the
  heap, and the method returns its address. No field of the dataset is assigned.
\<close>

definition LazyDataset_get_series_call ::
  "'a lazy_dataset \<Rightarrow> 'a heap \<Rightarrow> string \<Rightarrow> bool \<Rightarrow> (error + nat option) \<times> 'a heap" where
  "LazyDataset_get_series_call ld h n allow_none =
     (case LazyDataset_get_series ld n allow_none of
        Inl e \<Rightarrow> (Inl e, h)
      | Inr None \<Rightarrow> (Inr None, h)
      | Inr (Some g) \<Rightarrow> (Inr (Some (length h)), h @ [Suspended g]))"

section \<open>Loading a dataset from keyword arguments\<close>

text \<open>
  \<^verbatim>\<open>SERIES_SOURCE = re.compile("s_([^_]*)$")\<close>, used with \<^verbatim>\<open>match\<close>: the key starts with
  \<^verbatim>\<open>s_\<close>, the group takes the longest run of characters other than the underscore, and
  \<^verbatim>\<open>$\<close> asks for the end of the key after it. (A shorter group never helps: it ends
  before a character of the run, which is not the end of the key, and the only other
  place \<^verbatim>\<open>$\<close> accepts, before a final newline, is taken by the group, which matches a
  newline.)
\<close>

definition SERIES_SOURCE_match :: "string \<Rightarrow> string option" where
  "SERIES_SOURCE_match k =
     (let rest = drop 2 k;
          grp = takeWhile (\<lambda>c. c \<noteq> CHR ''_'') rest
      in if take 2 k = ''s_'' \<and> dropWhile (\<lambda>c. c \<noteq> CHR ''_'') rest = []
         then Some grp else None)"

text \<open>
  \<^verbatim>\<open>SERIES_OUTPUT = re.compile("s_(.*)_out")\<close>, used with \<^verbatim>\<open>match\<close>: the key starts with
  \<^verbatim>\<open>s_\<close>; the group \<^verbatim>\<open>.*\<close> first takes every character up to the first newline and
  gives characters back one at a time until \<^verbatim>\<open>_out\<close> follows it. Nothing is asked of
  what comes after \<^verbatim>\<open>_out\<close>.
\<close>

fun backtrack_out :: "string \<Rightarrow> nat \<Rightarrow> string option" where
  "backtrack_out rest 0 = (if take 4 rest = ''_out'' then Some [] else None)"
| "backtrack_out rest (Suc i) =
     (if take 4 (drop (Suc i) rest) = ''_out'' then Some (take (Suc i) rest)
      else backtrack_out rest i)"

definition SERIES_OUTPUT_match :: "string \<Rightarrow> string option" where
  "SERIES_OUTPUT_match k =
     (let rest = drop 2 k
      in if take 2 k = ''s_''
         then backtrack_out rest (length (takeWhile (\<lambda>c. c \<noteq> CHR 0x0A) rest))
         else None)"

text \<open>A dictionary comprehension stores its pairs one after the other into an empty
  dictionary.\<close>

definition dict_comp :: "('k \<times> 'v) list \<Rightarrow> ('k, 'v) dict" where
  "dict_comp kvs = fold (\<lambda>(k, v) d. AList.update k v d) kvs []"

text \<open>
  \<^verbatim>\<open>_get_series_paths\<close> and \<^verbatim>\<open>_get_series_outputs\<close>: the matching keys of \<^verbatim>\<open>kwargs\<close>, in
  its order, each giving the pair of its group and of its own value (\<^verbatim>\<open>kwargs[key]\<close>).
\<close>

definition get_series_paths :: "(string, string) dict \<Rightarrow> (string, string) dict" where
  "get_series_paths kwargs =
     dict_comp (List.map_filter
       (\<lambda>(key, val). map_option (\<lambda>nm. (nm, val)) (SERIES_SOURCE_match key)) kwargs)"

definition get_series_outputs :: "(string, string) dict \<Rightarrow> (string, string) dict" where
  "get_series_outputs kwargs =
     dict_comp (List.map_filter
       (\<lambda>(key, val). map_option (\<lambda>nm. (nm, val)) (SERIES_OUTPUT_match key)) kwargs)"

definition get_name_from_paths :: "(string, string) dict \<Rightarrow> string" where
  "get_name_from_paths paths = fold (\<lambda>(s, path) nm. nm @ ''-'' @ path) paths ''dataset''"

text \<open>The comprehension \<^verbatim>\<open>{key: list(create_dataset_series(path, preprocessor)) ...}\<close>:
  every file is read in turn, and the first failure ends the load.\<close>

fun load_series ::
  "'a file_system \<Rightarrow> ('a \<Rightarrow> 'a) \<Rightarrow> (string, string) dict
   \<Rightarrow> error + (string, 'a series_val) dict" where
  "load_series fs preprocessor [] = Inr []"
| "load_series fs preprocessor ((key, path) # r) =
     (case run_generator fs (create_dataset_series path preprocessor) of
        Inl e \<Rightarrow> Inl e
      | Inr xs \<Rightarrow>
          (case load_series fs preprocessor r of
             Inl e \<Rightarrow> Inl e
           | Inr sr \<Rightarrow> Inr ((key, ListV xs) # sr)))"

definition no_input_series :: error where
  "no_input_series = Exception ''No input files are provided.''"

text \<open>
  \<^verbatim>\<open>load_dataset_from_files\<close>. The keyword \<^verbatim>\<open>name\<close> is optional; the two calls of
  \<^verbatim>\<open>log\<close> write a message and are left out, but the length the second one formats is
  computed.
\<close>

definition load_dataset_from_files ::
  "'a file_system \<Rightarrow> string option \<Rightarrow> bool \<Rightarrow> ('a \<Rightarrow> 'a) \<Rightarrow> (string, string) dict
   \<Rightarrow> error + 'a loaded" where
  "load_dataset_from_files fs name_opt lazy preprocessor kwargs =
     (let paths = get_series_paths kwargs;
          outs = get_series_outputs kwargs
      in if length paths = 0 then Inl no_input_series
         else
           (let nm = (case name_opt of None \<Rightarrow> get_name_from_paths paths | Some n \<Rightarrow> n)
            in if lazy
               then (case LazyDataset_init nm paths outs preprocessor of
                       Inl e \<Rightarrow> Inl e
                     | Inr ld \<Rightarrow> Inr (Lazy ld))
               else (case load_series fs preprocessor paths of
                       Inl e \<Rightarrow> Inl e
                     | Inr sr \<Rightarrow>
                         (case Dataset_init nm sr outs of
                            Inl e \<Rightarrow> Inl e
                          | Inr d \<Rightarrow>
                              (case Dataset_len d of
                                 Inl e \<Rightarrow> Inl e
                               | Inr n \<Rightarrow> Inr (Eager d))))))"

section \<open>Properties of batching\<close>

lemma batch_loop_concat: "concat (batch_loop k buf xs) = buf @ xs"
  by (induction xs arbitrary: buf) (auto simp: Let_def)

lemma batch_loop_nonempty: "c \<in> set (batch_loop k buf xs) \<Longrightarrow> c \<noteq> []"
  by (induction xs arbitrary: buf) (auto simp: Let_def split: if_splits)

lemma batch_loop_le:
  "0 < k \<Longrightarrow> int (length buf) < k \<Longrightarrow> c \<in> set (batch_loop k buf xs) \<Longrightarrow> int (length c) \<le> k"
proof (induction xs arbitrary: buf)
  case Nil
  then show ?case by (auto split: if_splits)
next
  case (Cons x xs)
  show ?case
  proof (cases "int (length (buf @ [x])) \<ge> k")
    case True
    with Cons.prems(3) have "c = buf @ [x] \<or> c \<in> set (batch_loop k [] xs)"
      by (auto simp: Let_def)
    then show ?thesis
    proof
      assume "c = buf @ [x]" with Cons.prems(2) show ?thesis by simp
    next
      assume "c \<in> set (batch_loop k [] xs)"
      with Cons.IH [of "[]"] Cons.prems(1) show ?thesis by simp
    qed
  next
    case False
    with Cons.prems(3) have "c \<in> set (batch_loop k (buf @ [x]) xs)"
      by (simp add: Let_def)
    with Cons.IH [of "buf @ [x]"] Cons.prems(1) False show ?thesis by simp
  qed
qed

lemma batch_loop_butlast:
  "0 < k \<Longrightarrow> int (length buf) < k \<Longrightarrow> c \<in> set (butlast (batch_loop k buf xs)) \<Longrightarrow> int (length c) = k"
proof (induction xs arbitrary: buf)
  case Nil
  then show ?case by (simp split: if_splits)
next
  case (Cons x xs)
  show ?case
  proof (cases "int (length (buf @ [x])) \<ge> k")
    case True
    with Cons.prems have len: "int (length (buf @ [x])) = k" by simp
    from True Cons.prems(3) have "c \<in> set (butlast ((buf @ [x]) # batch_loop k [] xs))"
      by (simp add: Let_def)
    then have "c = buf @ [x] \<or> c \<in> set (butlast (batch_loop k [] xs))"
      by (auto split: if_splits)
    then show ?thesis
    proof
      assume "c = buf @ [x]" with len show ?thesis by simp
    next
      assume "c \<in> set (butlast (batch_loop k [] xs))"
      with Cons.IH [of "[]"] Cons.prems(1) show ?thesis by simp
    qed
  next
    case False
    with Cons.prems(3) have "c \<in> set (butlast (batch_loop k (buf @ [x]) xs))"
      by (simp add: Let_def)
    with Cons.IH [of "buf @ [x]"] Cons.prems(1) False show ?thesis by simp
  qed
qed

lemma ceil_div_one: "0 < m \<Longrightarrow> m < n \<Longrightarrow> (m + n - 1) div n = (1::nat)"
proof (rule div_nat_eqI)
  assume "0 < m" "m < n"
  then show "n * 1 \<le> m + n - 1" by arith
  assume "0 < m" "m < n"
  then show "m + n - 1 < n * Suc 1" by arith
qed

lemma ceil_div_step: "0 < n \<Longrightarrow> (n + m + n - 1) div n = Suc ((m + n - 1) div (n::nat))"
proof -
  assume n: "0 < n"
  define j where "j = m + n - 1"
  have "n + m + n - 1 = n + j" unfolding j_def using n by arith
  moreover have "(n + j) div n = Suc (j div n)" using n by (simp add: div_add_self1)
  ultimately show ?thesis unfolding j_def by (simp only:)
qed

lemma batch_loop_length:
  "0 < k \<Longrightarrow> int (length buf) < k \<Longrightarrow>
   length (batch_loop k buf xs) = (length buf + length xs + nat k - 1) div nat k"
proof (induction xs arbitrary: buf)
  case Nil
  show ?case
  proof (cases "buf = []")
    case True
    with Nil show ?thesis by simp
  next
    case False
    then have "0 < length buf" by simp
    moreover have "length buf < nat k" using Nil by simp
    ultimately have "(length buf + nat k - 1) div nat k = 1"
      by (rule ceil_div_one)
    with False show ?thesis by simp
  qed
next
  case (Cons x xs)
  show ?case
  proof (cases "int (length (buf @ [x])) \<ge> k")
    case True
    with Cons.prems have len: "Suc (length buf) = nat k" by simp
    have "length (batch_loop k buf (x # xs)) = Suc (length (batch_loop k [] xs))"
      using True by (simp add: Let_def)
    also have "\<dots> = Suc ((length xs + nat k - 1) div nat k)"
      using Cons.IH [of "[]"] Cons.prems(1) by simp
    also have "\<dots> = (nat k + length xs + nat k - 1) div nat k"
      using Cons.prems(1) by (simp only: ceil_div_step zero_less_nat_eq)
    also have "nat k + length xs = length buf + length (x # xs)"
      using len by simp
    finally show ?thesis .
  next
    case False
    then have "length (batch_loop k buf (x # xs)) = length (batch_loop k (buf @ [x]) xs)"
      by (simp add: Let_def)
    also have "\<dots> = (length (buf @ [x]) + length xs + nat k - 1) div nat k"
      using Cons.IH [of "buf @ [x]"] Cons.prems(1) False by simp
    finally show ?thesis by simp
  qed
qed


lemma ceil_div_real:
  assumes n: "0 < (n::nat)"
  shows "int ((m + n - 1) div n) = \<lceil>real m / real n\<rceil>"
proof -
  define q where "q = (m + n - 1) div n"
  have a: "n * q \<le> m + n - 1" unfolding q_def by simp
  have b: "m + n - 1 < n + n * q" unfolding q_def using n by (rule dividend_less_times_div)
  from a n have "n * q < m + n" by arith
  then have "real (n * q) < real (m + n)" by (simp only: of_nat_less_iff)
  then have lo: "real_of_int (int q) - 1 < real m / real n"
    using n by (simp add: field_simps)
  from b n have "m \<le> n * q" by arith
  then have "real m \<le> real (n * q)" by (simp only: of_nat_le_iff)
  then have hi: "real m / real n \<le> real_of_int (int q)"
    using n by (simp add: field_simps)
  from lo hi have "\<lceil>real m / real n\<rceil> = int q" by (rule ceiling_unique)
  then show ?thesis unfolding q_def by simp
qed

lemma batch_loop_count:
  assumes k: "0 < k"
  shows "int (length (batch_loop k [] xs)) = \<lceil>real (length xs) / real_of_int k\<rceil>"
proof -
  have "length (batch_loop k [] xs) = (length xs + nat k - 1) div nat k"
    using batch_loop_length [of k "[]" xs] k by simp
  moreover have "int ((length xs + nat k - 1) div nat k) = \<lceil>real (length xs) / real (nat k)\<rceil>"
    using k by (intro ceil_div_real) simp
  moreover have "real (nat k) = real_of_int k" using k by simp
  ultimately show ?thesis by simp
qed

lemma batch_loop_last:
  assumes "0 < k" and "batch_loop k [] xs \<noteq> []"
  shows "1 \<le> length (last (batch_loop k [] xs)) \<and> int (length (last (batch_loop k [] xs))) \<le> k"
proof -
  have mem: "last (batch_loop k [] xs) \<in> set (batch_loop k [] xs)"
    using assms(2) by (rule last_in_set)
  then have "last (batch_loop k [] xs) \<noteq> []" by (rule batch_loop_nonempty)
  then have "1 \<le> length (last (batch_loop k [] xs))"
    by (cases "last (batch_loop k [] xs)") simp_all
  moreover have "int (length (last (batch_loop k [] xs))) \<le> k"
    using assms(1) mem by (intro batch_loop_le [of k "[]" _ xs]) simp_all
  ultimately show ?thesis ..
qed

text \<open>
  C3: for a series of length \<open>L\<close>, of an eager or of a lazy dataset, and a batch size
  \<open>k > 0\<close>, \<^verbatim>\<open>batch_serie\<close> yields
  \<open>ceil(L / k)\<close> chunks; every chunk but the last has exactly \<open>k\<close> items, the last has
  between 1 and \<open>k\<close>, no chunk is empty, an empty series yields no chunk, and the chunks
  concatenated in the order of emission are the series.
\<close>

theorem batch_serie_chunks:
  assumes "self_get_series self serie_name False = Inr it" and "py_iter fs it = Inr xs"
    and "0 < k"
  shows "\<exists>chunks. batch_serie fs self serie_name k = Inr chunks
      \<and> int (length chunks) = \<lceil>real (length xs) / real_of_int k\<rceil>
      \<and> (\<forall>c \<in> set (butlast chunks). int (length c) = k)
      \<and> (chunks \<noteq> [] \<longrightarrow> 1 \<le> length (last chunks) \<and> int (length (last chunks)) \<le> k)
      \<and> (\<forall>c \<in> set chunks. c \<noteq> [])
      \<and> (xs = [] \<longrightarrow> chunks = [])
      \<and> concat chunks = xs"
proof -
  let ?chunks = "batch_loop k [] xs"
  have run: "batch_serie fs self serie_name k = Inr ?chunks"
    using assms(1,2) by (simp add: batch_serie_def)
  have count: "int (length ?chunks) = \<lceil>real (length xs) / real_of_int k\<rceil>"
    using assms(3) by (rule batch_loop_count)
  have full: "\<forall>c \<in> set (butlast ?chunks). int (length c) = k"
    using assms(3) batch_loop_butlast [of k "[]" _ xs] by simp
  have final: "?chunks \<noteq> [] \<longrightarrow> 1 \<le> length (last ?chunks) \<and> int (length (last ?chunks)) \<le> k"
    using assms(3) batch_loop_last [of k xs] by blast
  have nonempty: "\<forall>c \<in> set ?chunks. c \<noteq> []"
    using batch_loop_nonempty [of _ k "[]" xs] by blast
  have none: "xs = [] \<longrightarrow> ?chunks = []" by simp
  have cat: "concat ?chunks = xs" by (simp add: batch_loop_concat)
  from run count full final nonempty none cat show ?thesis by blast
qed

text \<open>An eager dataset with a series of three items, and a lazy dataset whose series is
  a text file of three lines, both batched by two.\<close>

theorem batch_serie_chunks_witness:
  "self_get_series
      (Eager \<lparr>name = ''t'', series = [(''src'', ListV [1, 2, 3 :: nat])], series_outputs = []\<rparr>)
      ''src'' False = Inr (Stored (ListV [1, 2, 3]))
   \<and> py_iter (\<lambda>p. None) (Stored (ListV [1, 2, 3 :: nat])) = Inr [1, 2, 3]
   \<and> (0 :: int) < 2
   \<and> (\<exists>chunks.
        batch_serie (\<lambda>p. None)
          (Eager \<lparr>name = ''t'', series = [(''src'', ListV [1, 2, 3 :: nat])], series_outputs = []\<rparr>)
          ''src'' 2 = Inr chunks
      \<and> int (length chunks) = \<lceil>real (length [1, 2, 3 :: nat]) / real_of_int 2\<rceil>
      \<and> (\<forall>c \<in> set (butlast chunks). int (length c) = 2)
      \<and> (chunks \<noteq> [] \<longrightarrow> 1 \<le> length (last chunks) \<and> int (length (last chunks)) \<le> 2)
      \<and> (\<forall>c \<in> set chunks. c \<noteq> [])
      \<and> ([1, 2, 3 :: nat] = [] \<longrightarrow> chunks = [])
      \<and> concat chunks = [1, 2, 3])
   \<and> self_get_series
      (Lazy \<lparr>name = ''d'', series = [(''src'', NoneV)], series_outputs = [],
         series_paths = [(''src'', ''a.txt'')], preprocess = (\<lambda>x :: string. x)\<rparr>)
      ''src'' False = Inr (Generator \<lparr>gen_path = ''a.txt'', gen_preprocess = (\<lambda>x. x)\<rparr>)
   \<and> py_iter
        (\<lambda>p. if p = ''a.txt''
          then Some \<lparr>mime_type = ''text/plain'', text_items = [''a'', ''b'', ''c''],
                     array_records = None\<rparr>
          else None)
        (Generator \<lparr>gen_path = ''a.txt'', gen_preprocess = (\<lambda>x. x)\<rparr>) = Inr [''a'', ''b'', ''c'']
   \<and> (\<exists>chunks.
        batch_serie
          (\<lambda>p. if p = ''a.txt''
            then Some \<lparr>mime_type = ''text/plain'', text_items = [''a'', ''b'', ''c''],
                       array_records = None\<rparr>
            else None)
          (Lazy \<lparr>name = ''d'', series = [(''src'', NoneV)], series_outputs = [],
             series_paths = [(''src'', ''a.txt'')], preprocess = (\<lambda>x :: string. x)\<rparr>)
          ''src'' 2 = Inr chunks
      \<and> int (length chunks) = \<lceil>real (length [''a'', ''b'', ''c'']) / real_of_int 2\<rceil>
      \<and> (\<forall>c \<in> set (butlast chunks). int (length c) = 2)
      \<and> (chunks \<noteq> [] \<longrightarrow> 1 \<le> length (last chunks) \<and> int (length (last chunks)) \<le> 2)
      \<and> (\<forall>c \<in> set chunks. c \<noteq> [])
      \<and> ([''a'', ''b'', ''c''] = [] \<longrightarrow> chunks = [])
      \<and> concat chunks = [''a'', ''b'', ''c''])"
proof -
  let ?ds = "Eager \<lparr>name = ''t'', series = [(''src'', ListV [1, 2, 3 :: nat])], series_outputs = []\<rparr>"
  let ?none = "\<lambda>p :: string. None :: nat data_file option"
  have e1: "self_get_series ?ds ''src'' False = Inr (Stored (ListV [1, 2, 3]))"
    by (simp add: get_series_def)
  have e2: "py_iter ?none (Stored (ListV [1, 2, 3 :: nat])) = Inr [1, 2, 3]" by simp
  have k: "(0 :: int) < 2" by simp
  note eager = batch_serie_chunks [OF e1 e2 k]
  let ?ld = "Lazy \<lparr>name = ''d'', series = [(''src'', NoneV)], series_outputs = [],
         series_paths = [(''src'', ''a.txt'')], preprocess = (\<lambda>x :: string. x)\<rparr>"
  let ?fs = "\<lambda>p. if p = ''a.txt''
          then Some \<lparr>mime_type = ''text/plain'', text_items = [''a'', ''b'', ''c''],
                     array_records = None\<rparr>
          else None"
  let ?g = "\<lparr>gen_path = ''a.txt'', gen_preprocess = (\<lambda>x :: string. x)\<rparr>"
  have l1: "self_get_series ?ld ''src'' False = Inr (Generator ?g)"
    by (simp add: LazyDataset_get_series_def create_dataset_series_def)
  have l2: "py_iter ?fs (Generator ?g) = Inr [''a'', ''b'', ''c'']"
    by (simp add: run_generator_def reader_read_def)
  note lazy = batch_serie_chunks [where fs = ?fs and self = ?ld, OF l1 l2 k]
  from e1 e2 k eager l1 l2 lazy show ?thesis by (intro conjI)
qed

section \<open>Properties of the series of a file\<close>

lemma run_generator_octet_stream:
  assumes "fs path = Some f" and "mime_type f = ''application/octet-stream''"
    and "array_records f = Some recs"
  shows "run_generator fs (create_dataset_series path preprocess_fn) = Inr []"
  using assms by (simp add: run_generator_def create_dataset_series_def np_load_def)

lemma run_generator_text:
  assumes "fs path = Some f" and "take 5 (mime_type f) = ''text/''"
  shows "run_generator fs (create_dataset_series path preprocess_fn)
         = Inr (map preprocess_fn (text_items f))"
  using assms by (simp add: run_generator_def create_dataset_series_def reader_read_def)

text \<open>
  C1: a file classified \<^verbatim>\<open>application/octet-stream\<close> that holds the two records
  \<open>[1, 2]\<close> and \<open>[3, 4]\<close>: the series created from its path, materialised, is empty, and
  so is the series the loader stores for it.
\<close>

theorem numeric_series_is_empty:
  "run_generator
     (\<lambda>p. if p = ''data.npy''
          then Some \<lparr>mime_type = ''application/octet-stream'', text_items = [],
                     array_records = Some [[1, 2], [3, 4 :: nat]]\<rparr>
          else None)
     (create_dataset_series ''data.npy'' (\<lambda>x. x)) = Inr []
   \<and> load_dataset_from_files
     (\<lambda>p. if p = ''data.npy''
          then Some \<lparr>mime_type = ''application/octet-stream'', text_items = [],
                     array_records = Some [[1, 2], [3, 4 :: nat]]\<rparr>
          else None)
     (Some ''d'') False (\<lambda>x. x) [(''s_x'', ''data.npy'')]
     = Inr (Eager \<lparr>name = ''d'', series = [(''x'', ListV [])], series_outputs = []\<rparr>)"
  by (simp add: run_generator_def create_dataset_series_def np_load_def
      load_dataset_from_files_def get_series_paths_def get_series_outputs_def dict_comp_def
      SERIES_SOURCE_match_def SERIES_OUTPUT_match_def
      Dataset_init_def check_series_lengths_def series_lengths_def Dataset_len_def)


section \<open>Properties of the construction\<close>




lemma check_series_lengths_few:
  assumes "length (filter is_list_or_array (map snd sr)) \<le> 1"
  shows "check_series_lengths sr = Inr ()"
proof -
  have "length (remdups (series_lengths sr)) \<le> length (series_lengths sr)"
    by (rule length_remdups_leq)
  also have "\<dots> \<le> 1" using assms by (simp add: series_lengths_def)
  finally show ?thesis by (simp add: check_series_lengths_def)
qed

text \<open>
  C2, as the code has it: the constructor of the eager dataset accepts an empty series
  dictionary, and the dataset it gives has the length 0; the failure for no input series
  is raised by \<^verbatim>\<open>load_dataset_from_files\<close>, whatever the name and the mode, when no
  keyword names an input series, and then no dataset is returned.
\<close>

theorem empty_series_construction:
  "Dataset_init nm ([] :: (string, 'a series_val) dict) outs =
     Inr \<lparr>name = nm, series = [], series_outputs = outs\<rparr>
   \<and> Dataset_len \<lparr>name = nm, series = ([] :: (string, 'a series_val) dict),
        series_outputs = outs\<rparr> = Inr 0
   \<and> (get_series_paths kwargs = [] \<longrightarrow>
        load_dataset_from_files (fs :: 'a file_system) name_opt lazy preprocessor kwargs
          = Inl no_input_series)"
  by (simp add: Dataset_init_def check_series_lengths_def series_lengths_def Dataset_len_def
      load_dataset_from_files_def)

theorem empty_series_construction_witness:
  "get_series_paths [(''name'', ''x''), (''s_target_out'', ''out.txt'')] = []
   \<and> load_dataset_from_files (\<lambda>p. None :: nat data_file option) (Some ''x'') False (\<lambda>x. x)
        [(''name'', ''x''), (''s_target_out'', ''out.txt'')] = Inl no_input_series
   \<and> Dataset_init ''x'' ([] :: (string, nat series_val) dict) [] =
        Inr \<lparr>name = ''x'', series = [], series_outputs = []\<rparr>"
proof -
  have h: "get_series_paths [(''name'', ''x''), (''s_target_out'', ''out.txt'')] = []"
    by (simp add: get_series_paths_def dict_comp_def SERIES_SOURCE_match_def)
  from empty_series_construction
    [of "''x''" "[]" "[(''name'', ''x''), (''s_target_out'', ''out.txt'')]"
        "\<lambda>p. None :: nat data_file option" "Some ''x''" False "\<lambda>x. x"] h
  show ?thesis by simp
qed

text \<open>The constructor called as in the scenario of the specification,
  \<^verbatim>\<open>Dataset(name="x", series={})\<close>, returns a dataset.\<close>

theorem empty_series_counterexample:
  "Dataset_init ''x'' ([] :: (string, nat series_val) dict) [] =
     Inr \<lparr>name = ''x'', series = [], series_outputs = []\<rparr>"
  by (simp add: Dataset_init_def check_series_lengths_def series_lengths_def)




text \<open>Outside the declared type: with a \<^verbatim>\<open>None\<close> beside lists of the lengths 3 and 5
  the report, which is built from every series, cannot be built, and the construction
  ends in a \<^verbatim>\<open>TypeError\<close>.\<close>

lemma report_with_none_value:
  "Dataset_init ''x''
     [(''a'', ListV [1, 2, 3 :: nat]), (''b'', ListV [1, 2, 3, 4, 5]), (''c'', NoneV)] []
   = Inl TypeError"
  by (simp add: Dataset_init_def check_series_lengths_def series_lengths_def)

text \<open>The message of the scenario with the lengths 3 and 5.\<close>

lemma length_mismatch_message:
  "Dataset_init ''x'' [(''a'', ListV [1, 2, 3 :: nat]), (''b'', ListV [1, 2, 3, 4, 5])] []
   = Inl (Exception ''Lengths of data series must be equal. Instead: a: 3, b: 5'')"
  by (simp add: Dataset_init_def check_series_lengths_def series_lengths_def
      length_mismatch_def str_nat.simps digit_char_def)

text \<open>
  C10: when at most one series value is a list or an array, the constructor of the eager
  dataset raises nothing and returns the dataset, whatever the other values are; so the
  constructor of the lazy dataset, which passes \<^verbatim>\<open>None\<close> for every series, always returns.
\<close>

theorem at_most_one_list_no_mismatch:
  assumes "length (filter is_list_or_array (map snd sr)) \<le> 1"
  shows "Dataset_init nm sr outs = Inr \<lparr>name = nm, series = sr, series_outputs = outs\<rparr>
    \<and> LazyDataset_init nm paths outs preprocess_fn =
        Inr \<lparr>name = nm, series = map (\<lambda>(s, p). (s, NoneV :: 'a series_val)) paths,
             series_outputs = outs, series_paths = paths, preprocess = preprocess_fn\<rparr>"
proof -
  have eager: "Dataset_init nm sr outs = Inr \<lparr>name = nm, series = sr, series_outputs = outs\<rparr>"
    using check_series_lengths_few [OF assms] by (simp add: Dataset_init_def)
  have "filter is_list_or_array
          (map snd (map (\<lambda>(s, p). (s, NoneV :: 'a series_val)) paths)) = []"
    by (induction paths) auto
  then have "check_series_lengths (map (\<lambda>(s, p). (s, NoneV :: 'a series_val)) paths) = Inr ()"
    by (intro check_series_lengths_few) simp
  then have "LazyDataset_init nm paths outs preprocess_fn =
        Inr \<lparr>name = nm, series = map (\<lambda>(s, p). (s, NoneV :: 'a series_val)) paths,
             series_outputs = outs, series_paths = paths, preprocess = preprocess_fn\<rparr>"
    by (simp add: LazyDataset_init_def Dataset_init_def)
  with eager show ?thesis ..
qed

theorem at_most_one_list_no_mismatch_witness:
  "length (filter is_list_or_array
      (map snd [(''a'', ListV [1, 2, 3 :: nat]), (''b'', NoneV), (''c'', TupleV [7])])) \<le> 1
   \<and> Dataset_init ''x'' [(''a'', ListV [1, 2, 3 :: nat]), (''b'', NoneV), (''c'', TupleV [7])] []
       = Inr \<lparr>name = ''x'',
              series = [(''a'', ListV [1, 2, 3 :: nat]), (''b'', NoneV), (''c'', TupleV [7])],
              series_outputs = []\<rparr>"
proof -
  have h: "length (filter is_list_or_array
      (map snd [(''a'', ListV [1, 2, 3 :: nat]), (''b'', NoneV), (''c'', TupleV [7])])) \<le> 1"
    by simp
  from at_most_one_list_no_mismatch [where nm = "''x''" and outs = "[]", OF h] h
  show ?thesis by blast
qed

section \<open>Properties of the lazy dataset\<close>

text \<open>
  C6: the length of a lazy dataset is never a number: \<^verbatim>\<open>__len__\<close> raises the exception
  that says the size is unknown, whatever the paths and the files.
\<close>

theorem lazy_len_always_fails:
  "LazyDataset_len ld = Inl size_unknown \<and> (\<forall>n. LazyDataset_len ld \<noteq> Inr n)"
  by (simp add: LazyDataset_len_def)

text \<open>
  C9: \<^verbatim>\<open>shuffle\<close> of a lazy dataset changes nothing: the name, the paths, the outputs,
  the preprocessor and the series placeholders are as before, and every series is read
  as before.
\<close>

theorem lazy_shuffle_noop:
  "LazyDataset_shuffle ld = ld
   \<and> name (LazyDataset_shuffle ld) = name ld
   \<and> series_paths (LazyDataset_shuffle ld) = series_paths ld
   \<and> series_outputs (LazyDataset_shuffle ld) = series_outputs ld
   \<and> preprocess (LazyDataset_shuffle ld) = preprocess ld
   \<and> series (LazyDataset_shuffle ld) = series ld
   \<and> LazyDataset_get_series (LazyDataset_shuffle ld) n allow_none
       = LazyDataset_get_series ld n allow_none"
  by (simp add: LazyDataset_shuffle_def)

subsection \<open>Generator objects\<close>

lemma gen_drain_reading:
  "gen_drain fs (Reading remaining preprocess_fn) = (Inr (map preprocess_fn remaining), Finished)"
proof (induction remaining)
  case Nil
  show ?case by (subst gen_drain.simps) simp
next
  case (Cons line rest)
  show ?case by (subst gen_drain.simps) (simp add: Cons.IH)
qed

lemma gen_drain_finished: "gen_drain fs Finished = (Inr [], Finished)"
  by (subst gen_drain.simps) simp

text \<open>Draining a new generator gives what \<^const>\<open>run_generator\<close> computes.\<close>

lemma gen_drain_suspended: "gen_drain fs (Suspended g) = (run_generator fs g, Finished)"
proof (cases "fs (gen_path g)")
  case None
  then show ?thesis by (subst gen_drain.simps) (simp add: run_generator_def)
next
  case (Some f)
  show ?thesis
  proof (cases "take 5 (mime_type f) = ''text/''")
    case True
    show ?thesis
    proof (cases "reader_read f")
      case Nil
      with Some True show ?thesis
        by (subst gen_drain.simps) (simp add: run_generator_def)
    next
      case (Cons line rest)
      with Some True show ?thesis
        by (subst gen_drain.simps) (simp add: run_generator_def gen_drain_reading)
    qed
  next
    case False
    with Some show ?thesis
      by (subst gen_drain.simps)
         (auto simp: run_generator_def Let_def split: sum.splits)
  qed
qed

lemma gen_drain_ends: "snd (gen_drain fs st) = Finished"
  by (cases st) (simp_all add: gen_drain_suspended gen_drain_reading gen_drain_finished)

lemma heap_list_suspended:
  assumes "a < length h" and "h ! a = Suspended g"
  shows "fst (heap_list fs h a) = run_generator fs g"
  using assms by (simp add: heap_list_def gen_drain_suspended)

lemma heap_list_other:
  assumes "a < length h" and "b < length h" and "a \<noteq> b"
  shows "snd (heap_list fs h a) ! b = h ! b \<and> length (snd (heap_list fs h a)) = length h"
  using assms by (simp add: heap_list_def split: prod.splits)

lemma heap_take_other:
  assumes "a < length h" and "b < length h" and "a \<noteq> b"
  shows "snd (heap_take m fs h a) ! b = h ! b \<and> length (snd (heap_take m fs h a)) = length h"
  using assms by (simp add: heap_take_def split: prod.splits)

text \<open>A generator that has been drained yields nothing more: which object is iterated
  matters.\<close>

lemma heap_list_exhausted:
  assumes "a < length h"
  shows "fst (heap_list fs' (snd (heap_list fs h a)) a) = Inr []"
proof -
  obtain r st' where d: "gen_drain fs (h ! a) = (r, st')" by (cases "gen_drain fs (h ! a)")
  with gen_drain_ends [of fs "h ! a"] have "st' = Finished" by simp
  with d assms show ?thesis by (simp add: heap_list_def gen_drain_finished)
qed

lemma run_generator_same_file:
  "fs' (gen_path g) = fs (gen_path g) \<Longrightarrow> run_generator fs' g = run_generator fs g"
  by (simp add: run_generator_def)

text \<open>
  C7: for a series name of a lazy dataset, two successive calls of \<^verbatim>\<open>get_series\<close> return
  two generator objects at two addresses and leave every generator that existed as it
  was. When the file of the series is the same at both readings, the second generator
  yields the same content as the first, whether the first has been read in part (by any
  number of \<^verbatim>\<open>next\<close>) or whole before: no cursor is shared. The content is that of one
  pass over the file from its start: for a text file every item of the file, preprocessed.
\<close>

theorem lazy_get_series_twice:
  assumes "map_of (series_paths ld) n = Some path" and "fs' path = fs path"
  shows "\<exists>a1 a2 h1 h2.
      LazyDataset_get_series_call ld h n allow_none = (Inr (Some a1), h1)
    \<and> LazyDataset_get_series_call ld h1 n allow_none = (Inr (Some a2), h2)
    \<and> a1 \<noteq> a2
    \<and> (\<forall>a < length h. h2 ! a = h ! a)
    \<and> (\<forall>m. fst (heap_list fs' (snd (heap_take m fs h2 a1)) a2) = fst (heap_list fs h2 a1))
    \<and> fst (heap_list fs' (snd (heap_list fs h2 a1)) a2) = fst (heap_list fs h2 a1)
    \<and> fst (heap_list fs h2 a1) = run_generator fs (create_dataset_series path (preprocess ld))
    \<and> (\<forall>f. fs path = Some f \<and> take 5 (mime_type f) = ''text/'' \<longrightarrow>
          fst (heap_list fs h2 a1) = Inr (map (preprocess ld) (text_items f)))"
proof -
  let ?g = "create_dataset_series path (preprocess ld)"
  let ?a1 = "length h"
  let ?h1 = "h @ [Suspended ?g]"
  let ?a2 = "Suc (length h)"
  let ?h2 = "h @ [Suspended ?g, Suspended ?g]"
  have res: "LazyDataset_get_series ld n allow_none = Inr (Some ?g)"
    using assms(1) by (simp add: LazyDataset_get_series_def)
  have call1: "LazyDataset_get_series_call ld h n allow_none = (Inr (Some ?a1), ?h1)"
    using res by (simp add: LazyDataset_get_series_call_def)
  have call2: "LazyDataset_get_series_call ld ?h1 n allow_none = (Inr (Some ?a2), ?h2)"
    using res by (simp add: LazyDataset_get_series_call_def)
  have distinct: "?a1 \<noteq> ?a2" by simp
  have old: "\<forall>a < length h. ?h2 ! a = h ! a" by (simp add: nth_append)
  have in1: "?a1 < length ?h2" and in2: "?a2 < length ?h2" by simp_all
  have at1: "?h2 ! ?a1 = Suspended ?g" by (simp add: nth_append)
  have at2: "?h2 ! ?a2 = Suspended ?g" by (simp add: nth_append)
  have path: "gen_path ?g = path" by (simp add: create_dataset_series_def)
  have same: "run_generator fs' ?g = run_generator fs ?g"
    using assms(2) path by (intro run_generator_same_file) simp
  have first: "fst (heap_list fs ?h2 ?a1) = run_generator fs ?g"
    using in1 at1 by (rule heap_list_suspended)
  have after_take: "fst (heap_list fs' (snd (heap_take m fs ?h2 ?a1)) ?a2) = fst (heap_list fs ?h2 ?a1)"
    for m
  proof -
    from heap_take_other [OF in1 in2 distinct, of m fs]
    have "?a2 < length (snd (heap_take m fs ?h2 ?a1))"
      and "snd (heap_take m fs ?h2 ?a1) ! ?a2 = Suspended ?g"
      using in2 at2 by simp_all
    then have "fst (heap_list fs' (snd (heap_take m fs ?h2 ?a1)) ?a2) = run_generator fs' ?g"
      by (rule heap_list_suspended)
    with same first show ?thesis by simp
  qed
  have after_list: "fst (heap_list fs' (snd (heap_list fs ?h2 ?a1)) ?a2) = fst (heap_list fs ?h2 ?a1)"
  proof -
    from heap_list_other [OF in1 in2 distinct, of fs]
    have "?a2 < length (snd (heap_list fs ?h2 ?a1))"
      and "snd (heap_list fs ?h2 ?a1) ! ?a2 = Suspended ?g"
      using in2 at2 by simp_all
    then have "fst (heap_list fs' (snd (heap_list fs ?h2 ?a1)) ?a2) = run_generator fs' ?g"
      by (rule heap_list_suspended)
    with same first show ?thesis by simp
  qed
  have whole: "fst (heap_list fs ?h2 ?a1) = Inr (map (preprocess ld) (text_items f))"
    if "fs path = Some f \<and> take 5 (mime_type f) = ''text/''" for f
    using that first by (simp add: run_generator_text)
  show ?thesis
  proof (intro exI conjI)
    show "LazyDataset_get_series_call ld h n allow_none = (Inr (Some ?a1), ?h1)" by (rule call1)
    show "LazyDataset_get_series_call ld ?h1 n allow_none = (Inr (Some ?a2), ?h2)" by (rule call2)
    show "?a1 \<noteq> ?a2" by (rule distinct)
    show "\<forall>a < length h. ?h2 ! a = h ! a" by (rule old)
    show "\<forall>m. fst (heap_list fs' (snd (heap_take m fs ?h2 ?a1)) ?a2) = fst (heap_list fs ?h2 ?a1)"
      using after_take by blast
    show "fst (heap_list fs' (snd (heap_list fs ?h2 ?a1)) ?a2) = fst (heap_list fs ?h2 ?a1)"
      by (rule after_list)
    show "fst (heap_list fs ?h2 ?a1) = run_generator fs ?g" by (rule first)
    show "\<forall>f. fs path = Some f \<and> take 5 (mime_type f) = ''text/'' \<longrightarrow>
          fst (heap_list fs ?h2 ?a1) = Inr (map (preprocess ld) (text_items f))"
      using whole by blast
  qed
qed


theorem lazy_get_series_twice_witness:
  "map_of (series_paths \<lparr>name = ''d'', series = [(''src'', NoneV)], series_outputs = [],
        series_paths = [(''src'', ''a.txt'')], preprocess = (\<lambda>x :: string. x @ ''!'')\<rparr>) ''src''
     = Some ''a.txt''
   \<and> (\<exists>a1 a2 h1 h2.
        LazyDataset_get_series_call \<lparr>name = ''d'', series = [(''src'', NoneV)], series_outputs = [],
          series_paths = [(''src'', ''a.txt'')], preprocess = (\<lambda>x :: string. x @ ''!'')\<rparr>
          [] ''src'' False = (Inr (Some a1), h1)
      \<and> LazyDataset_get_series_call \<lparr>name = ''d'', series = [(''src'', NoneV)], series_outputs = [],
          series_paths = [(''src'', ''a.txt'')], preprocess = (\<lambda>x :: string. x @ ''!'')\<rparr>
          h1 ''src'' False = (Inr (Some a2), h2)
      \<and> a1 \<noteq> a2
      \<and> fst (heap_list
            (\<lambda>p. if p = ''a.txt''
              then Some \<lparr>mime_type = ''text/plain'', text_items = [''a'', ''b''], array_records = None\<rparr>
              else None) h2 a1) = Inr [''a!'', ''b!'']
      \<and> fst (heap_list
            (\<lambda>p. if p = ''a.txt''
              then Some \<lparr>mime_type = ''text/plain'', text_items = [''a'', ''b''], array_records = None\<rparr>
              else None)
            (snd (heap_take 1
              (\<lambda>p. if p = ''a.txt''
                then Some \<lparr>mime_type = ''text/plain'', text_items = [''a'', ''b''], array_records = None\<rparr>
                else None) h2 a1)) a2) = Inr [''a!'', ''b!''])"
proof -
  let ?ld = "\<lparr>name = ''d'', series = [(''src'', NoneV)], series_outputs = [],
        series_paths = [(''src'', ''a.txt'')], preprocess = (\<lambda>x :: string. x @ ''!'')\<rparr>"
  let ?f = "\<lparr>mime_type = ''text/plain'', text_items = [''a'', ''b''], array_records = None\<rparr>"
  let ?fs = "\<lambda>p. if p = ''a.txt'' then Some ?f else None"
  have h1: "map_of (series_paths ?ld) ''src'' = Some ''a.txt''" by simp
  have h2: "?fs ''a.txt'' = ?fs ''a.txt''" by simp
  have h3: "?fs ''a.txt'' = Some ?f \<and> take 5 (mime_type ?f) = ''text/''" by simp
  from lazy_get_series_twice [where allow_none = False and fs = ?fs and fs' = ?fs
      and ld = ?ld and n = "''src''" and path = "''a.txt''" and h = "[]", OF h1 h2]
  obtain a1 a2 h1' h2' where g:
    "LazyDataset_get_series_call ?ld [] ''src'' False = (Inr (Some a1), h1')"
    "LazyDataset_get_series_call ?ld h1' ''src'' False = (Inr (Some a2), h2')"
    "a1 \<noteq> a2"
    "\<forall>m. fst (heap_list ?fs (snd (heap_take m ?fs h2' a1)) a2) = fst (heap_list ?fs h2' a1)"
    "\<forall>f. ?fs ''a.txt'' = Some f \<and> take 5 (mime_type f) = ''text/'' \<longrightarrow>
          fst (heap_list ?fs h2' a1) = Inr (map (preprocess ?ld) (text_items f))"
    by blast
  from g(5) h3 have "fst (heap_list ?fs h2' a1) = Inr (map (preprocess ?ld) (text_items ?f))"
    by blast
  then have whole: "fst (heap_list ?fs h2' a1) = Inr [''a!'', ''b!'']" by simp
  from g(4) have "fst (heap_list ?fs (snd (heap_take 1 ?fs h2' a1)) a2) = fst (heap_list ?fs h2' a1)"
    by blast
  with whole have second: "fst (heap_list ?fs (snd (heap_take 1 ?fs h2' a1)) a2) = Inr [''a!'', ''b!'']"
    by simp
  have "\<exists>a1 a2 h1 h2.
        LazyDataset_get_series_call ?ld [] ''src'' False = (Inr (Some a1), h1)
      \<and> LazyDataset_get_series_call ?ld h1 ''src'' False = (Inr (Some a2), h2)
      \<and> a1 \<noteq> a2
      \<and> fst (heap_list ?fs h2 a1) = Inr [''a!'', ''b!'']
      \<and> fst (heap_list ?fs (snd (heap_take 1 ?fs h2 a1)) a2) = Inr [''a!'', ''b!'']"
    using g(1,2,3) whole second
    by (intro exI [of _ a1] exI [of _ a2] exI [of _ h1'] exI [of _ h2'] conjI)
  with h1 show ?thesis by (intro conjI)
qed

text \<open>The first generator read by one item and the second read whole, and the first
  read twice.\<close>

lemma lazy_generators_example:
  "fst (heap_take 1
     (\<lambda>p. if p = ''a.txt''
        then Some \<lparr>mime_type = ''text/plain'', text_items = [''a'', ''b''], array_records = None\<rparr>
        else None)
     [Suspended \<lparr>gen_path = ''a.txt'', gen_preprocess = (\<lambda>x. x @ ''!'')\<rparr>,
      Suspended \<lparr>gen_path = ''a.txt'', gen_preprocess = (\<lambda>x. x @ ''!'')\<rparr>] 0) = [''a!'']
   \<and> fst (heap_list
     (\<lambda>p. if p = ''a.txt''
        then Some \<lparr>mime_type = ''text/plain'', text_items = [''a'', ''b''], array_records = None\<rparr>
        else None)
     (snd (heap_list
       (\<lambda>p. if p = ''a.txt''
          then Some \<lparr>mime_type = ''text/plain'', text_items = [''a'', ''b''], array_records = None\<rparr>
          else None)
       [Suspended \<lparr>gen_path = ''a.txt'', gen_preprocess = (\<lambda>x. x @ ''!'')\<rparr>,
        Suspended \<lparr>gen_path = ''a.txt'', gen_preprocess = (\<lambda>x. x @ ''!'')\<rparr>] 0)) 0) = Inr []"
  by (simp add: heap_take_def heap_list_def gen_drain_suspended gen_drain_finished
      run_generator_def reader_read_def)

section \<open>Properties of the keyword convention\<close>

lemma SERIES_SOURCE_match_iff:
  "SERIES_SOURCE_match k = Some s \<longleftrightarrow> k = ''s_'' @ s \<and> CHR ''_'' \<notin> set s"
proof
  assume m: "SERIES_SOURCE_match k = Some s"
  then have pre: "take 2 k = ''s_''" and rest: "dropWhile (\<lambda>c. c \<noteq> CHR ''_'') (drop 2 k) = []"
    and s: "s = takeWhile (\<lambda>c. c \<noteq> CHR ''_'') (drop 2 k)"
    by (auto simp: SERIES_SOURCE_match_def Let_def split: if_splits)
  from rest have all: "\<forall>c \<in> set (drop 2 k). c \<noteq> CHR ''_''" by simp
  then have "s = drop 2 k" using s by simp
  moreover have "k = take 2 k @ drop 2 k" by simp
  ultimately show "k = ''s_'' @ s \<and> CHR ''_'' \<notin> set s" using pre all by auto
next
  assume "k = ''s_'' @ s \<and> CHR ''_'' \<notin> set s"
  then have k: "k = ''s_'' @ s" and s: "\<forall>c \<in> set s. c \<noteq> CHR ''_''" by auto
  from s have "dropWhile (\<lambda>c. c \<noteq> CHR ''_'') s = []" "takeWhile (\<lambda>c. c \<noteq> CHR ''_'') s = s"
    by simp_all
  with k show "SERIES_SOURCE_match k = Some s"
    by (simp add: SERIES_SOURCE_match_def)
qed

text \<open>A key \<^verbatim>\<open>s_<series>_out\<close> gives its series to the output pattern.\<close>

lemma backtrack_out_skip:
  "(\<And>i. n < i \<Longrightarrow> take 4 (drop i rest) \<noteq> ''_out'')
   \<Longrightarrow> backtrack_out rest (n + m) = backtrack_out rest n"
  by (induction m) simp_all

lemma backtrack_out_hit:
  "take 4 (drop n rest) = ''_out'' \<Longrightarrow> backtrack_out rest n = Some (take n rest)"
  by (cases n) simp_all

lemma SERIES_OUTPUT_match_suffix:
  assumes "CHR 0x0A \<notin> set s"
  shows "SERIES_OUTPUT_match (''s_'' @ s @ ''_out'') = Some s"
proof -
  let ?rest = "s @ ''_out''"
  have run: "takeWhile (\<lambda>c. c \<noteq> CHR 0x0A) ?rest = ?rest"
    using assms(1) by auto
  have later: "take 4 (drop i ?rest) \<noteq> ''_out''" if "length s < i" for i
  proof
    assume "take 4 (drop i ?rest) = ''_out''"
    then have "length (take 4 (drop i ?rest)) = length ''_out''" by (simp only:)
    with that show False by simp
  qed
  have skip: "backtrack_out ?rest (length s + 4) = backtrack_out ?rest (length s)"
    using later by (rule backtrack_out_skip)
  have hit: "backtrack_out ?rest (length s) = Some (take (length s) ?rest)"
    by (rule backtrack_out_hit) simp
  have len: "length ?rest = length s + 4" by simp
  have found: "backtrack_out ?rest (length ?rest) = Some s"
    by (simp only: len skip hit) simp
  have "SERIES_OUTPUT_match (''s_'' @ ?rest)
        = backtrack_out ?rest (length (takeWhile (\<lambda>c. c \<noteq> CHR 0x0A) ?rest))"
    by (simp add: SERIES_OUTPUT_match_def Let_def)
  also have "\<dots> = Some s" by (simp only: run found)
  finally show ?thesis .
qed

text \<open>
  C8: the keyword \<^verbatim>\<open>s_target_output\<close> is neither of the form \<^verbatim>\<open>s_<series>\<close> nor of the
  form \<^verbatim>\<open>s_<series>_out\<close>, and yet it gives the series \<^verbatim>\<open>target\<close> an output path; it gives
  no input path.
\<close>

theorem output_key_not_anchored:
  "get_series_outputs [(''s_target_output'', ''out.txt'')] = [(''target'', ''out.txt'')]
   \<and> get_series_paths [(''s_target_output'', ''out.txt'')] = []"
  by (simp add: get_series_outputs_def get_series_paths_def dict_comp_def
      SERIES_OUTPUT_match_def SERIES_SOURCE_match_def)

section \<open>Properties of shuffling\<close>

subsection \<open>The exchange loop\<close>

lemma shuffle_loop_length: "length (shuffle_loop rand i x) = length x"
  by (induction i arbitrary: x) (simp_all add: Let_def)

lemma shuffle_loop_mset: "i < length x \<Longrightarrow> mset (shuffle_loop rand i x) = mset x"
proof (induction i arbitrary: x)
  case 0
  show ?case by simp
next
  case (Suc i)
  let ?j = "rand (Suc i + 1) mod (Suc i + 1)"
  let ?x = "x[Suc i := x ! ?j, ?j := x ! Suc i]"
  have "?j < Suc i + 1" by simp
  with Suc.prems have j: "?j < length x" by linarith
  have "mset (shuffle_loop rand (Suc i) x) = mset (shuffle_loop rand i ?x)"
    by (simp add: Let_def)
  also have "\<dots> = mset ?x" using Suc.prems by (intro Suc.IH) simp
  also have "\<dots> = mset x" using j Suc.prems by (rule mset_swap)
  finally show ?case .
qed

lemma shuffle_loop_map:
  "i < length ys \<Longrightarrow> shuffle_loop rand i (map f ys) = map f (shuffle_loop rand i ys)"
proof (induction i arbitrary: ys)
  case 0
  show ?case by simp
next
  case (Suc i)
  let ?j = "rand (Suc i + 1) mod (Suc i + 1)"
  have "?j < Suc i + 1" by simp
  with Suc.prems have j: "?j < length ys" by linarith
  have swap: "(map f ys)[Suc i := map f ys ! ?j, ?j := map f ys ! Suc i]
      = map f (ys[Suc i := ys ! ?j, ?j := ys ! Suc i])"
    using j Suc.prems by (simp add: map_update)
  have "shuffle_loop rand (Suc i) (map f ys)
      = shuffle_loop rand i (map f (ys[Suc i := ys ! ?j, ?j := ys ! Suc i]))"
    using swap by (simp add: Let_def)
  also have "\<dots> = map f (shuffle_loop rand i (ys[Suc i := ys ! ?j, ?j := ys ! Suc i]))"
    using Suc.prems by (intro Suc.IH) simp
  finally show ?case by (simp add: Let_def)
qed

text \<open>The shuffle of a list reads it through the shuffle of its indices.\<close>

lemma random_shuffle_indices:
  "random_shuffle rand x = map (\<lambda>i. x ! i) (random_shuffle rand [0..<length x])"
proof (cases "x = []")
  case True
  then show ?thesis by (simp add: random_shuffle_def)
next
  case False
  then have pos: "length x - 1 < length [0..<length x]" by (cases x) simp_all
  have "random_shuffle rand x = shuffle_loop rand (length x - 1) (map (\<lambda>i. x ! i) [0..<length x])"
    by (simp add: random_shuffle_def map_nth)
  also have "\<dots> = map (\<lambda>i. x ! i) (shuffle_loop rand (length x - 1) [0..<length x])"
    using pos by (rule shuffle_loop_map)
  finally show ?thesis by (simp add: random_shuffle_def)
qed

lemma random_shuffle_mset: "mset (random_shuffle rand x) = mset x"
proof (cases "x = []")
  case True
  then show ?thesis by (simp add: random_shuffle_def)
next
  case False
  then have "length x - 1 < length x" by (cases x) simp_all
  then show ?thesis unfolding random_shuffle_def by (rule shuffle_loop_mset)
qed

lemma random_shuffle_length: "length (random_shuffle rand x) = length x"
  by (simp add: random_shuffle_def shuffle_loop_length)

text \<open>The shuffled indices are a bijection of the indices.\<close>

lemma random_shuffle_bij:
  "bij_betw (\<lambda>i. random_shuffle rand [0..<n] ! i) {..<n} {..<n}"
proof -
  let ?ps = "random_shuffle rand [0..<n]"
  have m: "mset ?ps = mset [0..<n]" by (rule random_shuffle_mset)
  then have "set ?ps = set [0..<n]" by (rule mset_eq_setD)
  then have s: "set ?ps = {..<n}" by (simp add: atLeast_upt)
  have "distinct ?ps" using m distinct_upt mset_eq_imp_distinct_iff by blast
  moreover have "{..<n} = {..<length ?ps}" by (simp add: random_shuffle_length)
  ultimately show ?thesis using s by (intro bij_betw_nth) simp_all
qed


subsection \<open>Rows and columns\<close>

lemma min_length_equal:
  "xss \<noteq> [] \<Longrightarrow> \<forall>xs \<in> set xss. length xs = n \<Longrightarrow> min_length xss = n"
  by (induction xss rule: min_length.induct) simp_all

lemma zip_star_equal:
  assumes "xss \<noteq> []" and "\<forall>xs \<in> set xss. length xs = n"
  shows "zip_star xss = map (\<lambda>i. map (\<lambda>xs. xs ! i) xss) [0..<n]"
  using min_length_equal [OF assms] by (simp add: zip_star_def)

text \<open>Shuffling the rows of columns of one length and taking the columns again gives
  every column read through the same shuffled indices.\<close>

lemma zip_star_shuffled:
  assumes cols: "cols \<noteq> []" and len: "\<forall>xs \<in> set cols. length xs = L" and L: "0 < L"
  shows "zip_star (random_shuffle rand (zip_star cols))
         = map (\<lambda>xs. map (\<lambda>j. xs ! j) (random_shuffle rand [0..<L])) cols"
proof -
  let ?ps = "random_shuffle rand [0..<L]"
  let ?rows = "zip_star cols"
  have rows: "?rows = map (\<lambda>i. map (\<lambda>xs. xs ! i) cols) [0..<L]"
    using cols len by (rule zip_star_equal)
  then have lrows: "length ?rows = L" by simp
  have "mset ?ps = mset [0..<L]" by (rule random_shuffle_mset)
  then have "set ?ps = set [0..<L]" by (rule mset_eq_setD)
  then have ps: "\<forall>j \<in> set ?ps. j < L" by simp
  have lps: "length ?ps = L" by (simp add: random_shuffle_length)
  have "random_shuffle rand ?rows = map (\<lambda>i. ?rows ! i) ?ps"
    using random_shuffle_indices [of rand ?rows] lrows by simp
  also have "\<dots> = map (\<lambda>j. map (\<lambda>xs. xs ! j) cols) ?ps"
    using ps rows by (intro map_cong) simp_all
  finally have shuffled: "random_shuffle rand ?rows = map (\<lambda>j. map (\<lambda>xs. xs ! j) cols) ?ps" .
  have ne: "random_shuffle rand ?rows \<noteq> []"
    using lrows L random_shuffle_length [of rand ?rows] by (metis length_0_conv less_numeral_extra(3))
  have width: "\<forall>r \<in> set (random_shuffle rand ?rows). length r = length cols"
    unfolding shuffled by simp
  have "zip_star (random_shuffle rand ?rows)
        = map (\<lambda>c. map (\<lambda>r. r ! c) (random_shuffle rand ?rows)) [0..<length cols]"
    using ne width by (rule zip_star_equal)
  also have "\<dots> = map (\<lambda>xs. map (\<lambda>j. xs ! j) ?ps) cols"
    unfolding shuffled by (rule nth_equalityI) (simp_all add: comp_def)
  finally show ?thesis .
qed

subsection \<open>The stores of the loop\<close>

lemma update_in_place:
  "k \<notin> fst ` set pre \<Longrightarrow> AList.update k w (pre @ (k, v) # r) = pre @ (k, w) # r"
  by (induction pre) auto

lemma updates_in_place:
  "distinct (map fst sr) \<Longrightarrow> length vs = length sr \<Longrightarrow> fst ` set pre \<inter> fst ` set sr = {}
   \<Longrightarrow> AList.updates (map fst sr) vs (pre @ sr) = pre @ zip (map fst sr) vs"
proof (induction sr arbitrary: vs pre)
  case Nil
  then show ?case by simp
next
  case (Cons p sr)
  obtain k v where p: "p = (k, v)" by (cases p)
  from Cons.prems(2) obtain w ws where vs: "vs = w # ws" by (cases vs) simp_all
  from Cons.prems(3) p have notin: "k \<notin> fst ` set pre" by auto
  have disj: "fst ` set (pre @ [(k, w)]) \<inter> fst ` set sr = {}"
    using Cons.prems(1,3) p by auto
  have "AList.updates (map fst (p # sr)) vs (pre @ p # sr)
        = AList.updates (map fst sr) ws (AList.update k w (pre @ (k, v) # sr))"
    using p vs by simp
  also have "\<dots> = AList.updates (map fst sr) ws ((pre @ [(k, w)]) @ sr)"
    using notin by (simp add: update_in_place)
  also have "\<dots> = (pre @ [(k, w)]) @ zip (map fst sr) ws"
    using Cons.prems(1,2) vs disj by (intro Cons.IH) simp_all
  finally show ?case using p vs by simp
qed

lemma py_lists_columns:
  assumes "\<forall>(k, v) \<in> set sr. \<exists>xs. py_list v = Inr xs \<and> length xs = L"
  shows "\<exists>cols. py_lists (map snd sr) = Inr cols \<and> length cols = length sr
           \<and> (\<forall>c < length sr. py_list (snd (sr ! c)) = Inr (cols ! c))
           \<and> (\<forall>xs \<in> set cols. length xs = L)"
  using assms
proof (induction sr)
  case Nil
  show ?case by simp
next
  case (Cons p sr)
  obtain k v where p: "p = (k, v)" by (cases p)
  from Cons.prems p obtain xs where xs: "py_list v = Inr xs" "length xs = L" by auto
  from Cons.prems have "\<forall>(k, v) \<in> set sr. \<exists>xs. py_list v = Inr xs \<and> length xs = L" by simp
  with Cons.IH obtain cols where cols: "py_lists (map snd sr) = Inr cols"
    "length cols = length sr" "\<forall>c < length sr. py_list (snd (sr ! c)) = Inr (cols ! c)"
    "\<forall>xs \<in> set cols. length xs = L"
    by blast
  have run: "py_lists (map snd (p # sr)) = Inr (xs # cols)" using p xs(1) cols(1) by simp
  have each: "py_list (snd ((p # sr) ! c)) = Inr ((xs # cols) ! c)" if "c < length (p # sr)" for c
  proof (cases c)
    case 0
    with p xs(1) show ?thesis by simp
  next
    case (Suc d)
    with that cols(3) show ?thesis by simp
  qed
  from run each cols(2,4) xs(2) show ?case by auto
qed


lemma shuffled_column:
  assumes "length xs = L"
  shows "length (map (\<lambda>j. xs ! j) (random_shuffle rand [0..<L])) = L
    \<and> (\<forall>i < L. map (\<lambda>j. xs ! j) (random_shuffle rand [0..<L]) ! i
                = xs ! (random_shuffle rand [0..<L] ! i))
    \<and> mset (map (\<lambda>j. xs ! j) (random_shuffle rand [0..<L])) = mset xs"
proof -
  let ?ps = "random_shuffle rand [0..<L]"
  have lps: "length ?ps = L" by (simp add: random_shuffle_length)
  have "mset (map (\<lambda>j. xs ! j) ?ps) = image_mset (\<lambda>j. xs ! j) (mset ?ps)" by simp
  also have "\<dots> = image_mset (\<lambda>j. xs ! j) (mset [0..<L])"
    by (simp only: random_shuffle_mset)
  also have "\<dots> = mset (map (\<lambda>j. xs ! j) [0..<length xs])" using assms by simp
  also have "\<dots> = mset xs" by (simp only: map_nth)
  finally show ?thesis using lps by simp
qed

text \<open>
  C4: for an eager dataset whose series all have the length \<open>L\<close>, \<^verbatim>\<open>shuffle\<close> returns,
  and there is one bijection \<open>p\<close> of the indices below \<open>L\<close> such that every series has
  at every index \<open>i\<close> the item it had at \<open>p i\<close>: the rows are kept whole, and every
  series keeps its items with their multiplicities. The name, the outputs and the keys
  with their order are as before.
\<close>

theorem shuffle_one_permutation:
  assumes keys: "distinct (map fst (series ds))"
    and len: "\<forall>(k, v) \<in> set (series ds). \<exists>xs. py_list v = Inr xs \<and> length xs = L"
  shows "\<exists>ds' p. shuffle rand ds = Inr ds'
     \<and> bij_betw p {..<L} {..<L}
     \<and> name ds' = name ds \<and> series_outputs ds' = series_outputs ds
     \<and> map fst (series ds') = map fst (series ds)
     \<and> (\<forall>k v xs. map_of (series ds) k = Some v \<and> py_list v = Inr xs \<longrightarrow>
          (\<exists>v' xs'. map_of (series ds') k = Some v' \<and> py_list v' = Inr xs'
              \<and> length xs' = L \<and> (\<forall>i < L. xs' ! i = xs ! p i) \<and> mset xs' = mset xs))"
proof -
  let ?sr = "series ds"
  let ?ps = "random_shuffle rand [0..<L]"
  let ?p = "\<lambda>i. ?ps ! i"
  from py_lists_columns [OF len] obtain cols where cols: "py_lists (map snd ?sr) = Inr cols"
    "length cols = length ?sr" "\<forall>c < length ?sr. py_list (snd (?sr ! c)) = Inr (cols ! c)"
    "\<forall>xs \<in> set cols. length xs = L"
    by blast
  let ?vals = "map TupleV (zip_star (random_shuffle rand (zip_star cols)))"
  let ?ds' = "ds\<lparr>series := AList.updates (map fst ?sr) ?vals ?sr\<rparr>"
  have run: "shuffle rand ds = Inr ?ds'"
    using cols(1) by (simp add: shuffle_def Let_def)
  have bij: "bij_betw ?p {..<L} {..<L}" by (rule random_shuffle_bij)
  have len_of: "length xs = L" if "map_of ?sr k = Some v" and "py_list v = Inr xs" for k v xs
  proof -
    from that(1) have "(k, v) \<in> set ?sr" by (rule map_of_SomeD)
    with len that(2) show ?thesis by auto
  qed
  show ?thesis
  proof (cases "cols = [] \<or> L = 0")
    case True
    have "zip_star cols = []"
    proof (cases "cols = []")
      case True
      then show ?thesis by (simp add: zip_star_def)
    next
      case False
      with True have "L = 0" by simp
      with False cols(4) show ?thesis by (simp add: zip_star_equal [of cols 0])
    qed
    then have "?vals = []" by (simp add: random_shuffle_def zip_star_def)
    then have same: "series ?ds' = ?sr" by simp
    have each: "\<exists>v' xs'. map_of (series ?ds') k = Some v' \<and> py_list v' = Inr xs'
              \<and> length xs' = L \<and> (\<forall>i < L. xs' ! i = xs ! ?p i) \<and> mset xs' = mset xs"
      if h: "map_of ?sr k = Some v \<and> py_list v = Inr xs" for k v xs
    proof -
      from h have "?sr \<noteq> []" by auto
      with cols(2) True have "L = 0" by auto
      moreover from h have "length xs = L" using len_of by blast
      ultimately show ?thesis using h same by auto
    qed
    show ?thesis
    proof (intro exI conjI)
      show "shuffle rand ds = Inr ?ds'" by (rule run)
      show "bij_betw ?p {..<L} {..<L}" by (rule bij)
      show "name ?ds' = name ds" by simp
      show "series_outputs ?ds' = series_outputs ds" by simp
      show "map fst (series ?ds') = map fst ?sr" by (simp only: same)
      show "\<forall>k v xs. map_of ?sr k = Some v \<and> py_list v = Inr xs \<longrightarrow>
          (\<exists>v' xs'. map_of (series ?ds') k = Some v' \<and> py_list v' = Inr xs'
              \<and> length xs' = L \<and> (\<forall>i < L. xs' ! i = xs ! ?p i) \<and> mset xs' = mset xs)"
        using each by blast
    qed
  next
    case False
    then have ne: "cols \<noteq> []" and L: "0 < L" by simp_all
    let ?new = "map (\<lambda>xs. TupleV (map (\<lambda>j. xs ! j) ?ps)) cols"
    have "?vals = ?new"
      using zip_star_shuffled [OF ne cols(4) L, of rand] by simp
    moreover have "AList.updates (map fst ?sr) ?new ([] @ ?sr) = [] @ zip (map fst ?sr) ?new"
      using keys cols(2) by (intro updates_in_place) simp_all
    ultimately have new: "series ?ds' = zip (map fst ?sr) ?new" by simp
    have keys': "map fst (series ?ds') = map fst ?sr"
      unfolding new using cols(2) by simp
    have each: "\<exists>v' xs'. map_of (series ?ds') k = Some v' \<and> py_list v' = Inr xs'
              \<and> length xs' = L \<and> (\<forall>i < L. xs' ! i = xs ! ?p i) \<and> mset xs' = mset xs"
      if h: "map_of ?sr k = Some v \<and> py_list v = Inr xs" for k v xs
    proof -
      from h have "(k, v) \<in> set ?sr" by (auto dest: map_of_SomeD)
      then obtain c where c: "c < length ?sr" "?sr ! c = (k, v)"
        by (auto simp: in_set_conv_nth)
      with cols(3) h have col: "cols ! c = xs" by auto
      have "map_of (zip (map fst ?sr) ?new) (map fst ?sr ! c) = Some (?new ! c)"
        using keys cols(2) c(1) by (intro map_of_zip_nth) simp_all
      then have found: "map_of (series ?ds') k = Some (TupleV (map (\<lambda>j. xs ! j) ?ps))"
        using c cols(2) col new by simp
      from h have "length xs = L" using len_of by blast
      from shuffled_column [OF this, of rand] found show ?thesis by auto
    qed
    show ?thesis
    proof (intro exI conjI)
      show "shuffle rand ds = Inr ?ds'" by (rule run)
      show "bij_betw ?p {..<L} {..<L}" by (rule bij)
      show "name ?ds' = name ds" by simp
      show "series_outputs ?ds' = series_outputs ds" by simp
      show "map fst (series ?ds') = map fst ?sr" by (rule keys')
      show "\<forall>k v xs. map_of ?sr k = Some v \<and> py_list v = Inr xs \<longrightarrow>
          (\<exists>v' xs'. map_of (series ?ds') k = Some v' \<and> py_list v' = Inr xs'
              \<and> length xs' = L \<and> (\<forall>i < L. xs' ! i = xs ! ?p i) \<and> mset xs' = mset xs)"
        using each by blast
    qed
  qed
qed


theorem shuffle_one_permutation_witness:
  "distinct (map fst (series \<lparr>name = ''t'',
        series = [(''src'', ListV [1, 2, 3 :: nat]), (''tgt'', ListV [10, 20, 30])],
        series_outputs = []\<rparr>))
   \<and> list_all (\<lambda>(k, v). \<exists>xs. py_list v = Inr xs \<and> length xs = 3)
        (series \<lparr>name = ''t'',
          series = [(''src'', ListV [1, 2, 3 :: nat]), (''tgt'', ListV [10, 20, 30])],
          series_outputs = []\<rparr>)
   \<and> (\<exists>ds' p. shuffle (\<lambda>n. 0) \<lparr>name = ''t'',
          series = [(''src'', ListV [1, 2, 3 :: nat]), (''tgt'', ListV [10, 20, 30])],
          series_outputs = []\<rparr> = Inr ds'
     \<and> bij_betw p {..<3} {..<3}
     \<and> name ds' = ''t'' \<and> series_outputs ds' = []
     \<and> map fst (series ds') = [''src'', ''tgt'']
     \<and> (\<exists>v' xs'. map_of (series ds') ''src'' = Some v' \<and> py_list v' = Inr xs'
              \<and> length xs' = 3 \<and> (\<forall>i < 3. xs' ! i = [1, 2, 3] ! p i) \<and> mset xs' = mset [1, 2, 3])
     \<and> (\<exists>v' xs'. map_of (series ds') ''tgt'' = Some v' \<and> py_list v' = Inr xs'
              \<and> length xs' = 3 \<and> (\<forall>i < 3. xs' ! i = [10, 20, 30] ! p i)
              \<and> mset xs' = mset [10, 20, 30]))"
proof -
  let ?ds = "\<lparr>name = ''t'',
        series = [(''src'', ListV [1, 2, 3 :: nat]), (''tgt'', ListV [10, 20, 30])],
        series_outputs = []\<rparr>"
  have h1: "distinct (map fst (series ?ds))" by simp
  have h2: "\<forall>(k, v) \<in> set (series ?ds). \<exists>xs. py_list v = Inr xs \<and> length xs = 3" by simp
  have h2': "list_all (\<lambda>(k, v). \<exists>xs. py_list v = Inr xs \<and> length xs = 3) (series ?ds)" by simp
  from shuffle_one_permutation [OF h1 h2, of "\<lambda>n. 0"]
  obtain ds' p where r: "shuffle (\<lambda>n. 0) ?ds = Inr ds'" "bij_betw p {..<3} {..<3}"
    "name ds' = name ?ds" "series_outputs ds' = series_outputs ?ds"
    "map fst (series ds') = map fst (series ?ds)"
    "\<forall>k v xs. map_of (series ?ds) k = Some v \<and> py_list v = Inr xs \<longrightarrow>
          (\<exists>v' xs'. map_of (series ds') k = Some v' \<and> py_list v' = Inr xs'
              \<and> length xs' = 3 \<and> (\<forall>i < 3. xs' ! i = xs ! p i) \<and> mset xs' = mset xs)"
    by blast
  have a: "map_of (series ?ds) ''src'' = Some (ListV [1, 2, 3]) \<and> py_list (ListV [1, 2, 3 :: nat]) = Inr [1, 2, 3]"
    by simp
  have b: "map_of (series ?ds) ''tgt'' = Some (ListV [10, 20, 30]) \<and> py_list (ListV [10, 20, 30 :: nat]) = Inr [10, 20, 30]"
    by simp
  from r(6) a have src: "\<exists>v' xs'. map_of (series ds') ''src'' = Some v' \<and> py_list v' = Inr xs'
              \<and> length xs' = 3 \<and> (\<forall>i < 3. xs' ! i = [1, 2, 3] ! p i) \<and> mset xs' = mset [1, 2, 3]"
    by blast
  from r(6) b have tgt: "\<exists>v' xs'. map_of (series ds') ''tgt'' = Some v' \<and> py_list v' = Inr xs'
              \<and> length xs' = 3 \<and> (\<forall>i < 3. xs' ! i = [10, 20, 30] ! p i)
              \<and> mset xs' = mset [10, 20, 30]"
    by blast
  from r(3,4,5) have frame: "name ds' = ''t''" "series_outputs ds' = []"
    "map fst (series ds') = [''src'', ''tgt'']" by simp_all
  have "\<exists>ds' p. shuffle (\<lambda>n. 0) ?ds = Inr ds'
     \<and> bij_betw p {..<3} {..<3}
     \<and> name ds' = ''t'' \<and> series_outputs ds' = []
     \<and> map fst (series ds') = [''src'', ''tgt'']
     \<and> (\<exists>v' xs'. map_of (series ds') ''src'' = Some v' \<and> py_list v' = Inr xs'
              \<and> length xs' = 3 \<and> (\<forall>i < 3. xs' ! i = [1, 2, 3] ! p i) \<and> mset xs' = mset [1, 2, 3])
     \<and> (\<exists>v' xs'. map_of (series ds') ''tgt'' = Some v' \<and> py_list v' = Inr xs'
              \<and> length xs' = 3 \<and> (\<forall>i < 3. xs' ! i = [10, 20, 30] ! p i)
              \<and> mset xs' = mset [10, 20, 30])"
    using r(1,2) frame src tgt by (intro exI [of _ ds'] exI [of _ p] conjI)
  with h1 h2' show ?thesis by (intro conjI)
qed

lemma shuffle_example:
  "shuffle (\<lambda>n. 0) \<lparr>name = ''t'',
        series = [(''src'', ListV [1, 2, 3 :: nat]), (''tgt'', ListV [10, 20, 30])],
        series_outputs = []\<rparr>
   = Inr \<lparr>name = ''t'',
        series = [(''src'', TupleV [2, 3, 1]), (''tgt'', TupleV [20, 30, 10])],
        series_outputs = []\<rparr>"
  by code_simp

end
